theory Spec2Isabelle
  imports Main "HOL-Library.Sublist"
begin

section \<open>Text, character classes and string primitives\<close>

text \<open>
  The scripts of \<^verbatim>\<open>guarzo/eveDMV\<close> rewrite Elixir source text with Python regular
  expressions. A text is a \<^typ>\<open>string\<close>, one \<^typ>\<open>char\<close> per code point; the
  model covers ASCII text, on which Python's classes \<^verbatim>\<open>\s\<close> and \<^verbatim>\<open>\w\<close> (for \<^verbatim>\<open>str\<close>
  patterns) are the two sets below. A variable name is interpolated into every
  pattern unescaped; the model matches it literally, which is what the pattern
  does for a name made of word characters (\<open>is_ident\<close>).
\<close>

definition is_space :: "char \<Rightarrow> bool" where
  "is_space c = (let n = (of_char c :: nat) in (9 \<le> n \<and> n \<le> 13) \<or> (28 \<le> n \<and> n \<le> 32))"

definition is_word :: "char \<Rightarrow> bool" where
  "is_word c = (let n = (of_char c :: nat) in
     (48 \<le> n \<and> n \<le> 57) \<or> (65 \<le> n \<and> n \<le> 90) \<or> n = 95 \<or> (97 \<le> n \<and> n \<le> 122))"

definition is_digit :: "char \<Rightarrow> bool" where
  "is_digit c = (let n = (of_char c :: nat) in 48 \<le> n \<and> n \<le> 57)"

definition is_ident :: "string \<Rightarrow> bool" where
  "is_ident v = (v \<noteq> [] \<and> list_all is_word v \<and> \<not> is_digit (hd v))"

text \<open>\<^verbatim>\<open>s.split('\n')\<close>: never empty; \<^verbatim>\<open>'\n'.join(lines)\<close>.\<close>

fun split_lines :: "string \<Rightarrow> string list" where
  "split_lines [] = [[]]"
| "split_lines (c # cs) =
     (if c = CHR 0x0A then [] # split_lines cs
      else (case split_lines cs of [] \<Rightarrow> [[c]] | l # ls \<Rightarrow> (c # l) # ls))"

fun join_lines :: "string list \<Rightarrow> string" where
  "join_lines [] = []"
| "join_lines [l] = l"
| "join_lines (l # ls) = l @ CHR 0x0A # join_lines ls"

text \<open>\<^verbatim>\<open>p in s\<close> on strings.\<close>

fun contains :: "string \<Rightarrow> string \<Rightarrow> bool" where
  "contains p [] = (p = [])"
| "contains p (c # cs) = (prefix p (c # cs) \<or> contains p cs)"

text \<open>\<^verbatim>\<open>s.replace(old, new)\<close>: every non-overlapping occurrence, left to right.\<close>

function str_replace :: "string \<Rightarrow> string \<Rightarrow> string \<Rightarrow> string" where
  "str_replace old new [] = (if old = [] then new else [])"
| "str_replace old new (c # cs) =
     (if old = [] then new @ c # str_replace old new cs
      else if prefix old (c # cs) then new @ str_replace old new (drop (length old) (c # cs))
      else c # str_replace old new cs)"
  by pat_completeness auto
termination
  by (relation "measure (\<lambda>(old, new, s). length s)") auto

definition skip_ws :: "string \<Rightarrow> string" where
  "skip_ws s = dropWhile is_space s"

section \<open>The patterns of \<^verbatim>\<open>fix_function_variable\<close>\<close>

text \<open>
  \<^verbatim>\<open>re.search(rf'^\s*{var_name}\s*=(?!=)', line)\<close>, the assignment scanner's test.
  The greedy \<^verbatim>\<open>\s*\<close> takes all the white space there is, since what follows it
  (a word character, then \<^verbatim>\<open>=\<close>) is no white space, so there is nothing to backtrack to.
\<close>

definition is_assignment :: "string \<Rightarrow> string \<Rightarrow> bool" where
  "is_assignment var_name line =
     (let l = skip_ws line in
      prefix var_name l \<and>
      (case skip_ws (drop (length var_name) l) of
         [] \<Rightarrow> False
       | c # rest \<Rightarrow> c = CHR ''='' \<and> (case rest of [] \<Rightarrow> True | d # _ \<Rightarrow> d \<noteq> CHR ''='')))"

text \<open>\<^verbatim>\<open>re.search(rf'^\s*{var_name}\s*=', line)\<close>, the guard of the reference loop.\<close>

definition is_assignment_loose :: "string \<Rightarrow> string \<Rightarrow> bool" where
  "is_assignment_loose var_name line =
     (let l = skip_ws line in
      prefix var_name l \<and>
      (case skip_ws (drop (length var_name) l) of [] \<Rightarrow> False | c # _ \<Rightarrow> c = CHR ''=''))"

text \<open>
  \<^verbatim>\<open>re.sub(rf'^(\s*){var_name}(\s*=)', rf'\1{new_var_name}\2', line)\<close>: without
  MULTILINE the anchor holds at offset 0 only, so at most the leading name is replaced.
\<close>

definition sub_assignment :: "string \<Rightarrow> string \<Rightarrow> string \<Rightarrow> string" where
  "sub_assignment var_name new_var_name line =
     (if is_assignment_loose var_name line
      then takeWhile is_space line @ new_var_name @ drop (length var_name) (skip_ws line)
      else line)"

text \<open>
  \<^verbatim>\<open>re.sub(rf'\b{name}\b', new, line)\<close>. \<^verbatim>\<open>\b\<close> holds where exactly one of the two
  neighbouring characters is a word character (the ends of the line count as
  non-word). The flag \<open>pw\<close> says whether the character before the current offset is a
  word character. A match is not empty, so the scan goes on behind it.
\<close>

definition word_match_at :: "string \<Rightarrow> bool \<Rightarrow> string \<Rightarrow> bool" where
  "word_match_at name pw s =
     (name \<noteq> [] \<and> prefix name s \<and> pw \<noteq> is_word (hd name) \<and>
      is_word (last name) \<noteq> (case drop (length name) s of [] \<Rightarrow> False | c # _ \<Rightarrow> is_word c))"

function sub_word_from :: "string \<Rightarrow> string \<Rightarrow> bool \<Rightarrow> string \<Rightarrow> string" where
  "sub_word_from name new pw [] = []"
| "sub_word_from name new pw (c # cs) =
     (if word_match_at name pw (c # cs)
      then new @ sub_word_from name new (is_word (last name)) (drop (length name) (c # cs))
      else c # sub_word_from name new (is_word c) cs)"
  by pat_completeness auto
termination
  by (relation "measure (\<lambda>(name, new, pw, s). length s)") (auto simp: word_match_at_def)

definition sub_word :: "string \<Rightarrow> string \<Rightarrow> string \<Rightarrow> string" where
  "sub_word name new line = sub_word_from name new False line"

text \<open>
  The three shapes of a final reference:
  \<^verbatim>\<open>^\s*{var_name}\s*$\<close>, \<^verbatim>\<open>^\s*{var_name}\s*\|>\<close> and
  \<^verbatim>\<open>^\s*\{\s*:ok\s*,\s*{var_name}\s*\}\<close>.
\<close>

definition is_bare_ref :: "string \<Rightarrow> string \<Rightarrow> bool" where
  "is_bare_ref var_name line =
     (let l = skip_ws line in prefix var_name l \<and> skip_ws (drop (length var_name) l) = [])"

definition is_pipe_ref :: "string \<Rightarrow> string \<Rightarrow> bool" where
  "is_pipe_ref var_name line =
     (let l = skip_ws line in
      prefix var_name l \<and> prefix ''|>'' (skip_ws (drop (length var_name) l)))"

definition is_ok_tuple_ref :: "string \<Rightarrow> string \<Rightarrow> bool" where
  "is_ok_tuple_ref var_name line =
     (case skip_ws line of
        [] \<Rightarrow> False
      | c # l1 \<Rightarrow> c = CHR ''{'' \<and>
         (let l2 = skip_ws l1 in
          prefix '':ok'' l2 \<and>
          (case skip_ws (drop 3 l2) of
             [] \<Rightarrow> False
           | d # l3 \<Rightarrow> d = CHR '','' \<and>
              (let l4 = skip_ws l3 in
               prefix var_name l4 \<and>
               (case skip_ws (drop (length var_name) l4) of
                  [] \<Rightarrow> False
                | e # _ \<Rightarrow> e = CHR ''}'')))))"

definition is_final_ref :: "string \<Rightarrow> string \<Rightarrow> bool" where
  "is_final_ref var_name line =
     (is_bare_ref var_name line \<or> is_pipe_ref var_name line \<or> is_ok_tuple_ref var_name line)"

section \<open>\<^verbatim>\<open>fix_function_variable\<close>\<close>

datatype error = IndexError | OSError

text \<open>The scanner: indices of the lines that assign \<open>var_name\<close>, top to bottom.\<close>

definition assignment_lines :: "string \<Rightarrow> string list \<Rightarrow> nat list" where
  "assignment_lines var_name lines =
     filter (\<lambda>i. is_assignment var_name (lines ! i)) [0..<length lines]"

text \<open>The inner loop \<^verbatim>\<open>for j in range(start_line, end_line)\<close>.\<close>

fun update_refs :: "string \<Rightarrow> string \<Rightarrow> string \<Rightarrow> nat list \<Rightarrow> string list \<Rightarrow> string list" where
  "update_refs var_name cur new [] lines = lines"
| "update_refs var_name cur new (j # js) lines =
     update_refs var_name cur new js
       (if \<not> is_assignment_loose var_name (lines ! j)
        then lines[j := sub_word cur new (lines ! j)]
        else lines)"

text \<open>
  The loop \<^verbatim>\<open>for idx, line_idx in enumerate(assignment_lines)\<close>: \<open>sites\<close> is what is
  left of \<^verbatim>\<open>assignment_lines\<close> from \<open>idx\<close> on, \<open>cur\<close> is \<^verbatim>\<open>current_var_name\<close>.
\<close>

fun rewrite_loop ::
  "string \<Rightarrow> string list \<Rightarrow> nat \<Rightarrow> string \<Rightarrow> nat list \<Rightarrow> string list \<Rightarrow> string list" where
  "rewrite_loop var_name replacements idx cur [] lines = lines"
| "rewrite_loop var_name replacements idx cur (line_idx # sites) lines =
     (if idx \<ge> length replacements then lines
      else
        let new_var_name = replacements ! idx;
            lines1 = lines[line_idx := sub_assignment var_name new_var_name (lines ! line_idx)];
            start_line = line_idx + 1;
            end_line = (case sites of [] \<Rightarrow> length lines1 | next_idx # _ \<Rightarrow> next_idx);
            lines2 = update_refs var_name cur new_var_name [start_line..<end_line] lines1
        in rewrite_loop var_name replacements (idx + 1) new_var_name sites lines2)"

text \<open>
  The last loop \<^verbatim>\<open>for i in range(len(lines) - 1, -1, -1)\<close> with its \<^verbatim>\<open>break\<close>:
  \<open>is\<close> are the indices still to visit, highest first.
\<close>

fun final_loop :: "string \<Rightarrow> string \<Rightarrow> nat list \<Rightarrow> string list \<Rightarrow> string list" where
  "final_loop var_name final_var_name [] lines = lines"
| "final_loop var_name final_var_name (i # is) lines =
     (if is_final_ref var_name (lines ! i)
      then lines[i := sub_word var_name final_var_name (lines ! i)]
      else final_loop var_name final_var_name is lines)"

text \<open>
  \<^verbatim>\<open>replacements[min(len(assignment_lines) - 1, len(replacements) - 1)]\<close>: with two or
  more sites the first argument is at least 1, so the index is \<open>-1\<close> exactly when
  \<^verbatim>\<open>replacements\<close> is empty, and then Python raises IndexError.
\<close>

definition final_name :: "string list \<Rightarrow> nat \<Rightarrow> error + string" where
  "final_name replacements n =
     (if replacements = [] then Inl IndexError
      else Inr (replacements ! min (n - 1) (length replacements - 1)))"

definition fix_function_lines ::
  "string list \<Rightarrow> string \<Rightarrow> string list \<Rightarrow> error + string list" where
  "fix_function_lines lines var_name replacements =
     (let sites = assignment_lines var_name lines;
          lines1 = rewrite_loop var_name replacements 0 var_name sites lines
      in case final_name replacements (length sites) of
           Inl e \<Rightarrow> Inl e
         | Inr final_var_name \<Rightarrow>
             Inr (final_loop var_name final_var_name (rev [0..<length lines1]) lines1))"

definition fix_function_variable :: "string \<Rightarrow> string \<Rightarrow> string list \<Rightarrow> error + string" where
  "fix_function_variable func_content var_name replacements =
     (let lines = split_lines func_content in
      if length (assignment_lines var_name lines) \<le> 1 then Inr func_content
      else map_sum id join_lines (fix_function_lines lines var_name replacements))"


section \<open>The naming strategy registry\<close>

text \<open>The dictionary \<^verbatim>\<open>naming_strategies\<close> of \<^verbatim>\<open>fix_variable_in_content\<close>, in its order.\<close>

definition naming_strategies :: "(string \<times> string list) list" where
  "naming_strategies =
  [
   (''recommendations'',
     [''initial_recommendations'',
      ''base_recommendations'',
      ''tactical_recommendations'',
      ''strategic_recommendations'',
      ''enhanced_recommendations'',
      ''final_recommendations'']),
   (''factors'',
     [''initial_factors'',
      ''base_factors'',
      ''numerical_factors'',
      ''tactical_factors'',
      ''control_factors'',
      ''final_factors'']),
   (''warnings'',
     [''initial_warnings'',
      ''critical_warnings'',
      ''security_warnings'',
      ''performance_warnings'',
      ''operational_warnings'',
      ''final_warnings'']),
   (''alerts'',
     [''initial_alerts'',
      ''critical_alerts'',
      ''warning_alerts'',
      ''info_alerts'',
      ''system_alerts'',
      ''final_alerts'']),
   (''gaps'',
     [''initial_gaps'',
      ''coverage_gaps'',
      ''skill_gaps'',
      ''resource_gaps'',
      ''strategic_gaps'',
      ''final_gaps'']),
   (''risks'',
     [''initial_risks'',
      ''operational_risks'',
      ''security_risks'',
      ''financial_risks'',
      ''strategic_risks'',
      ''final_risks'']),
   (''risk_factors'',
     [''initial_risk_factors'',
      ''behavioral_risk_factors'',
      ''environmental_risk_factors'',
      ''operational_risk_factors'',
      ''strategic_risk_factors'',
      ''final_risk_factors'']),
   (''anomalies'',
     [''initial_anomalies'',
      ''behavioral_anomalies'',
      ''statistical_anomalies'',
      ''temporal_anomalies'',
      ''pattern_anomalies'',
      ''final_anomalies'']),
   (''suggestions'',
     [''initial_suggestions'',
      ''improvement_suggestions'',
      ''optimization_suggestions'',
      ''tactical_suggestions'',
      ''strategic_suggestions'',
      ''final_suggestions'']),
   (''actions'',
     [''initial_actions'',
      ''immediate_actions'',
      ''remedial_actions'',
      ''preventive_actions'',
      ''long_term_actions'',
      ''final_actions'']),
   (''improvements'',
     [''initial_improvements'',
      ''priority_improvements'',
      ''performance_improvements'',
      ''quality_improvements'',
      ''strategic_improvements'',
      ''final_improvements'']),
   (''confidence_factors'',
     [''initial_confidence_factors'',
      ''data_confidence_factors'',
      ''analysis_confidence_factors'',
      ''prediction_confidence_factors'',
      ''validation_confidence_factors'',
      ''final_confidence_factors'']),
   (''parts'',
     [''initial_parts'',
      ''header_parts'',
      ''body_parts'',
      ''footer_parts'',
      ''metadata_parts'',
      ''final_parts'']),
   (''report'',
     [''initial_report'',
      ''summary_report'',
      ''detailed_report'',
      ''analysis_report'',
      ''metrics_report'',
      ''final_report'']),
   (''suggested_additions'',
     [''initial_suggested_additions'',
      ''tactical_suggested_additions'',
      ''strategic_suggested_additions'',
      ''operational_suggested_additions'',
      ''enhancement_suggested_additions'',
      ''final_suggested_additions''])
  ]"

text \<open>\<^verbatim>\<open>naming_strategies.get(var_name, [f'initial_{var_name}', ...])\<close>.\<close>

definition replacements_for :: "string \<Rightarrow> string list" where
  "replacements_for var_name =
     (case map_of naming_strategies var_name of
        Some names \<Rightarrow> names
      | None \<Rightarrow>
          [''initial_'' @ var_name, ''base_'' @ var_name, ''enhanced_'' @ var_name,
           ''processed_'' @ var_name, ''updated_'' @ var_name, ''final_'' @ var_name])"

section \<open>The region locator\<close>

text \<open>
  \<^verbatim>\<open>function_pattern = r'(defp?\s+\w+.*?(?=\n\s*defp?\s|\n\s*@|\nend\n|\Z))'\<close>,
  used with \<^verbatim>\<open>re.DOTALL\<close>.

  \<open>starts_def_kw\<close> is \<^verbatim>\<open>defp?\s\<close> at the head of a text;
  \<open>at_region_end\<close> is the lookahead: a line break followed by white space and
  \<^verbatim>\<open>def\<close>/\<^verbatim>\<open>defp\<close>, or by white space and \<^verbatim>\<open>@\<close>, or by the line \<^verbatim>\<open>end\<close>, or the end of
  the text.
\<close>

definition starts_def_kw :: "string \<Rightarrow> bool" where
  "starts_def_kw s =
     (prefix ''def'' s \<and>
      (case drop 3 s of
         [] \<Rightarrow> False
       | c # r \<Rightarrow> is_space c \<or> (c = CHR ''p'' \<and> (case r of [] \<Rightarrow> False | d # _ \<Rightarrow> is_space d))))"

definition at_region_end :: "string \<Rightarrow> bool" where
  "at_region_end s =
     (case s of
        [] \<Rightarrow> True
      | c # t \<Rightarrow> c = CHR 0x0A \<and>
          (starts_def_kw (skip_ws t) \<or> prefix ''@'' (skip_ws t) \<or> prefix [CHR ''e'', CHR ''n'', CHR ''d'', CHR 0x0A] t))"

text \<open>
  \<^verbatim>\<open>defp?\s+\w+\<close> at the head of a text: the matched header, if any. After \<^verbatim>\<open>def\<close> a
  \<^verbatim>\<open>p\<close> is taken when there is one (without it \<^verbatim>\<open>\s+\<close> would have to match that
  \<^verbatim>\<open>p\<close>); \<^verbatim>\<open>\s+\<close> and \<^verbatim>\<open>\w+\<close> take all they can, and since the lazy body after them
  always finds an end (at the latest \<^verbatim>\<open>\Z\<close>), they are never shortened.
\<close>

definition match_header :: "string \<Rightarrow> string option" where
  "match_header s =
     (if prefix ''def'' s then
        let s1 = drop 3 s;
            s2 = (case s1 of [] \<Rightarrow> s1 | c # r \<Rightarrow> if c = CHR ''p'' then r else s1);
            s3 = skip_ws s2;
            name = takeWhile is_word s3
        in if s3 \<noteq> s2 \<and> name \<noteq> []
           then Some (take (length s - length (dropWhile is_word s3)) s)
           else None
      else None)"

text \<open>\<^verbatim>\<open>.*?\<close> before the lookahead: the shortest text after which the lookahead holds.\<close>

fun lazy_body :: "string \<Rightarrow> string" where
  "lazy_body [] = []"
| "lazy_body (c # cs) = (if at_region_end (c # cs) then [] else c # lazy_body cs)"

definition match_function :: "string \<Rightarrow> string option" where
  "match_function s =
     (case match_header s of
        None \<Rightarrow> None
      | Some h \<Rightarrow> Some (h @ lazy_body (drop (length h) s)))"

text \<open>
  \<^verbatim>\<open>[m.group(0) for m in re.finditer(function_pattern, content, re.DOTALL)]\<close>:
  the search resumes where the last match ended; a match \<open>m\<close> is never empty, so
  the text behind it is \<open>drop (length m - 1) cs\<close>.
\<close>

fun find_functions :: "string \<Rightarrow> string list" where
  "find_functions [] = []"
| "find_functions (c # cs) =
     (case match_function (c # cs) of
        None \<Rightarrow> find_functions cs
      | Some m \<Rightarrow> m # find_functions (drop (length m - 1) cs))"

section \<open>\<^verbatim>\<open>fix_variable_in_content\<close>\<close>

text \<open>
  The loop \<^verbatim>\<open>for func_match in functions\<close>: the regions were located in the text as
  it was on entry; \<^verbatim>\<open>content.replace\<close> replaces every occurrence of the region's
  text in the current content.
\<close>

fun fix_functions_loop ::
  "string \<Rightarrow> string list \<Rightarrow> string list \<Rightarrow> string \<Rightarrow> error + string" where
  "fix_functions_loop var_name replacements [] content = Inr content"
| "fix_functions_loop var_name replacements (func_content # functions) content =
     (if contains (var_name @ '' ='') func_content then
        (case fix_function_variable func_content var_name replacements of
           Inl e \<Rightarrow> Inl e
         | Inr new_func \<Rightarrow>
             fix_functions_loop var_name replacements functions
               (if new_func \<noteq> func_content then str_replace func_content new_func content
                else content))
      else fix_functions_loop var_name replacements functions content)"

definition fix_variable_in_content :: "string \<Rightarrow> string \<Rightarrow> error + string" where
  "fix_variable_in_content content var_name =
     fix_functions_loop var_name (replacements_for var_name) (find_functions content) content"

section \<open>\<^verbatim>\<open>fix_specific_file_issues\<close>\<close>

text \<open>
  The file system as far as the script sees it: the text of each readable file,
  which paths can be opened for writing, and, as effects, the writes done and the
  lines printed.
\<close>

record world =
  files :: "string \<Rightarrow> string option"
  writable :: "string \<Rightarrow> bool"
  written :: "(string \<times> string) list"
  printed :: "string list"

definition read_file :: "world \<Rightarrow> string \<Rightarrow> error + string" where
  "read_file w filepath = (case files w filepath of None \<Rightarrow> Inl OSError | Some content \<Rightarrow> Inr content)"

definition write_file :: "world \<Rightarrow> string \<Rightarrow> string \<Rightarrow> error + world" where
  "write_file w filepath content =
     (if writable w filepath
      then Inr (w\<lparr>files := (files w)(filepath \<mapsto> content),
                 written := written w @ [(filepath, content)]\<rparr>)
      else Inl OSError)"

text \<open>
  The keys of \<^verbatim>\<open>vars_to_fix\<close> in insertion order: each variable name once, at its
  first occurrence in \<^verbatim>\<open>var_issues\<close>.
\<close>

definition vars_to_fix :: "(string \<times> string) list \<Rightarrow> string list" where
  "vars_to_fix var_issues = rev (remdups (rev (map fst var_issues)))"

fun fix_each_variable :: "string list \<Rightarrow> string \<Rightarrow> error + string" where
  "fix_each_variable [] content = Inr content"
| "fix_each_variable (var_name # vars) content =
     (case fix_variable_in_content content var_name of
        Inl e \<Rightarrow> Inl e
      | Inr content' \<Rightarrow> fix_each_variable vars content')"

text \<open>The body of the \<^verbatim>\<open>try\<close> block; \<open>Inl\<close> is an exception that leaves it.\<close>

definition fix_specific_file_try ::
  "world \<Rightarrow> string \<Rightarrow> (string \<times> string) list \<Rightarrow> error + (bool \<times> world)" where
  "fix_specific_file_try w filepath var_issues =
     (case read_file w filepath of
        Inl e \<Rightarrow> Inl e
      | Inr original_content \<Rightarrow>
          (case fix_each_variable (vars_to_fix var_issues) original_content of
             Inl e \<Rightarrow> Inl e
           | Inr content \<Rightarrow>
               if content \<noteq> original_content then
                 (case write_file w filepath content of
                    Inl e \<Rightarrow> Inl e
                  | Inr w' \<Rightarrow> Inr (True, w'))
               else Inr (False, w)))"

text \<open>\<^verbatim>\<open>except Exception as e: print(...); return False\<close>.\<close>

definition fix_specific_file_issues ::
  "world \<Rightarrow> string \<Rightarrow> (string \<times> string) list \<Rightarrow> bool \<times> world" where
  "fix_specific_file_issues w filepath var_issues =
     (case fix_specific_file_try w filepath var_issues of
        Inl e \<Rightarrow> (False, w\<lparr>printed := printed w @ [''Error processing '' @ filepath]\<rparr>)
      | Inr r \<Rightarrow> r)"

section \<open>Notions of the specification\<close>

text \<open>
  The specification's reading of an assignment site: the \<^verbatim>\<open>=\<close> behind the
  identifier is not part of a comparison or match operator of the rewritten
  language (Elixir's \<^verbatim>\<open>==\<close>, \<^verbatim>\<open>!=\<close>, \<^verbatim>\<open><=\<close>, \<^verbatim>\<open>>=\<close>, \<^verbatim>\<open>===\<close>, \<^verbatim>\<open>!==\<close>, \<^verbatim>\<open>=~\<close>).
\<close>

definition comparison_operators :: "string list" where
  "comparison_operators = [''=='', ''!='', ''<='', ''>='', ''==='', ''!=='', ''=~'']"

definition spec_is_assignment :: "string \<Rightarrow> string \<Rightarrow> bool" where
  "spec_is_assignment identifier line =
     (let l = skip_ws line in
      prefix identifier l \<and>
      (case skip_ws (drop (length identifier) l) of
         [] \<Rightarrow> False
       | c # rest \<Rightarrow>
           c = CHR ''='' \<and> \<not> list_ex (\<lambda>op. prefix op (c # rest)) comparison_operators))"

section \<open>Example texts\<close>

definition scenario_a :: string where
  "scenario_a = join_lines
     [''recommendations = []'',
      ''recommendations = [recommendations, '' @ [CHR 0x22] @ ''x'' @ [CHR 0x22] @ '']'',
      ''recommendations'']"

definition scenario_a_file :: string where
  "scenario_a_file = join_lines
     [''def build do'',
      ''  recommendations = []'',
      ''  recommendations = [recommendations, '' @ [CHR 0x22] @ ''x'' @ [CHR 0x22] @ '']'',
      ''  recommendations'',
      ''end'',
      []]"

definition single_region :: string where
  "single_region = join_lines [''def f do'', ''  x = 1'', ''  g(x)'', ''  x'', ''end'']"

definition tight_region :: string where
  "tight_region = join_lines [''def f do'', ''  x= 1'', ''  x= 2'', ''  x'', ''end'']"

definition nested_file :: string where
  "nested_file = join_lines
     [''def outer do'', ''  def inner do'', ''    x'', ''  end'', ''end'', []]"

definition eight_file :: string where
  "eight_file = join_lines
     [''def f do'', ''  x = 1'', ''  x = 2'', ''  x = 3'', ''  x = 4'', ''  x = 5'',
      ''  x = 6'', ''  x = 7'', ''  x = 8'', ''  x'', ''end'', []]"

definition eight_once :: string where
  "eight_once = join_lines
     [''def f do'', ''  initial_x = 1'', ''  base_x = 2'', ''  enhanced_x = 3'',
      ''  processed_x = 4'', ''  updated_x = 5'', ''  final_x = 6'', ''  x = 7'', ''  x = 8'',
      ''  final_x'', ''end'', []]"

definition eight_twice :: string where
  "eight_twice = join_lines
     [''def f do'', ''  initial_x = 1'', ''  base_x = 2'', ''  enhanced_x = 3'',
      ''  processed_x = 4'', ''  updated_x = 5'', ''  final_x = 6'', ''  initial_x = 7'',
      ''  base_x = 8'', ''  final_x'', ''end'', []]"

definition eight_world :: world where
  "eight_world =
     \<lparr>files = [''lib/a.ex'' \<mapsto> eight_file], writable = (\<lambda>p. True), written = [], printed = []\<rparr>"

definition locked_world :: world where
  "locked_world =
     \<lparr>files = [''lib/a.ex'' \<mapsto> eight_file], writable = (\<lambda>p. False), written = [], printed = []\<rparr>"

definition seven_region :: string where
  "seven_region = join_lines
     [''def f do'', ''  x = 1'', ''  x = 2'', ''  x = 3'', ''  x = 4'', ''  x = 5'',
      ''  x = 6'', ''  x = 7'', ''  x'', ''end'']"

definition above_lines :: "string list" where
  "above_lines =
     [''def f do'', ''  x = 1'', ''  x = 2'', ''  x'', ''  x = 3'', ''  g(x)'', ''end'']"

section \<open>Basic facts about the character classes and patterns\<close>

lemma word_not_space: "is_word c \<Longrightarrow> \<not> is_space c"
  by (auto simp: is_word_def is_space_def Let_def)

lemma eq_not_space: "\<not> is_space CHR ''=''"
  by (simp add: is_space_def)

lemma skip_ws_append_spaces: "list_all is_space ws \<Longrightarrow> skip_ws (ws @ s) = skip_ws s"
  by (induction ws) (simp_all add: skip_ws_def)

lemma skip_ws_nonspace: "\<not> is_space c \<Longrightarrow> skip_ws (c # s) = c # s"
  by (simp add: skip_ws_def)

lemma skip_ws_decomp: "\<exists>ws. line = ws @ skip_ws line \<and> list_all is_space ws"
  by (rule exI [of _ "takeWhile is_space line"])
     (simp add: skip_ws_def list_all_iff, meson set_takeWhileD)

lemma ident_hd_not_space: "is_ident v \<Longrightarrow> \<exists>c cs. v = c # cs \<and> \<not> is_space c"
  by (cases v) (auto simp: is_ident_def word_not_space)

lemma is_assignment_loose_iff:
  assumes "is_ident v"
  shows "is_assignment_loose v line \<longleftrightarrow>
    (\<exists>ws ws' rest. line = ws @ v @ ws' @ CHR ''='' # rest \<and>
       list_all is_space ws \<and> list_all is_space ws')"
proof
  assume a: "is_assignment_loose v line"
  obtain ws where ws: "line = ws @ skip_ws line" "list_all is_space ws"
    using skip_ws_decomp by blast
  from a have p: "prefix v (skip_ws line)"
    by (simp add: is_assignment_loose_def Let_def)
  then obtain t where t: "skip_ws line = v @ t" by (auto simp: prefix_def)
  obtain ws' where ws': "t = ws' @ skip_ws t" "list_all is_space ws'"
    using skip_ws_decomp by blast
  from a t obtain rest where "skip_ws t = CHR ''='' # rest"
    by (auto simp: is_assignment_loose_def Let_def split: list.splits)
  with ws t ws' show "\<exists>ws ws' rest. line = ws @ v @ ws' @ CHR ''='' # rest \<and>
       list_all is_space ws \<and> list_all is_space ws'"
    by metis
next
  assume "\<exists>ws ws' rest. line = ws @ v @ ws' @ CHR ''='' # rest \<and>
       list_all is_space ws \<and> list_all is_space ws'"
  then obtain ws ws' rest where l: "line = ws @ v @ ws' @ CHR ''='' # rest"
    and s: "list_all is_space ws" "list_all is_space ws'" by blast
  from assms obtain c cs where v: "v = c # cs" "\<not> is_space c"
    using ident_hd_not_space by blast
  have "skip_ws line = v @ ws' @ CHR ''='' # rest"
    using l s v by (simp add: skip_ws_append_spaces skip_ws_nonspace)
  then show "is_assignment_loose v line"
    using s by (simp add: is_assignment_loose_def Let_def skip_ws_append_spaces
        skip_ws_nonspace eq_not_space)
qed

lemma is_assignment_iff:
  assumes "is_ident v"
  shows "is_assignment v line \<longleftrightarrow>
    (\<exists>ws ws' rest. line = ws @ v @ ws' @ CHR ''='' # rest \<and>
       list_all is_space ws \<and> list_all is_space ws' \<and> \<not> prefix ''='' rest)"
proof
  assume a: "is_assignment v line"
  obtain ws where ws: "line = ws @ skip_ws line" "list_all is_space ws"
    using skip_ws_decomp by blast
  from a have p: "prefix v (skip_ws line)"
    by (simp add: is_assignment_def Let_def)
  then obtain t where t: "skip_ws line = v @ t" by (auto simp: prefix_def)
  obtain ws' where ws': "t = ws' @ skip_ws t" "list_all is_space ws'"
    using skip_ws_decomp by blast
  from a t obtain rest where "skip_ws t = CHR ''='' # rest" "\<not> prefix ''='' rest"
    by (auto simp: is_assignment_def Let_def split: list.splits)
  with ws t ws' show "\<exists>ws ws' rest. line = ws @ v @ ws' @ CHR ''='' # rest \<and>
       list_all is_space ws \<and> list_all is_space ws' \<and> \<not> prefix ''='' rest"
    by metis
next
  assume "\<exists>ws ws' rest. line = ws @ v @ ws' @ CHR ''='' # rest \<and>
       list_all is_space ws \<and> list_all is_space ws' \<and> \<not> prefix ''='' rest"
  then obtain ws ws' rest where l: "line = ws @ v @ ws' @ CHR ''='' # rest"
    and s: "list_all is_space ws" "list_all is_space ws'" and r: "\<not> prefix ''='' rest"
    by blast
  from assms obtain c cs where v: "v = c # cs" "\<not> is_space c"
    using ident_hd_not_space by blast
  have "skip_ws line = v @ ws' @ CHR ''='' # rest"
    using l s v by (simp add: skip_ws_append_spaces skip_ws_nonspace)
  then show "is_assignment v line"
    using s r by (cases rest) (simp_all add: is_assignment_def Let_def skip_ws_append_spaces
        skip_ws_nonspace eq_not_space)
qed

lemma assignment_lines_sorted: "sorted_wrt (<) (assignment_lines v ls)"
  by (simp add: assignment_lines_def sorted_wrt_filter)

lemma assignment_lines_set:
  "set (assignment_lines v ls) = {i. i < length ls \<and> is_assignment v (ls ! i)}"
  by (auto simp: assignment_lines_def)

lemma fix_functions_loop_skip:
  "\<forall>r \<in> set rs. \<not> contains (v @ '' ='') r \<Longrightarrow> fix_functions_loop v reps rs c = Inr c"
  by (induction rs) simp_all

lemma fix_specific_file_issues_unfold:
  "fix_specific_file_issues w filepath var_issues =
     (case read_file w filepath of
        Inl e \<Rightarrow> (False, w\<lparr>printed := printed w @ [''Error processing '' @ filepath]\<rparr>)
      | Inr original_content \<Rightarrow>
          (case fix_each_variable (vars_to_fix var_issues) original_content of
             Inl e \<Rightarrow> (False, w\<lparr>printed := printed w @ [''Error processing '' @ filepath]\<rparr>)
           | Inr content \<Rightarrow>
               if content = original_content then (False, w)
               else if writable w filepath
               then (True, w\<lparr>files := (files w)(filepath \<mapsto> content),
                              written := written w @ [(filepath, content)]\<rparr>)
               else (False, w\<lparr>printed := printed w @ [''Error processing '' @ filepath]\<rparr>)))"
  by (simp add: fix_specific_file_issues_def fix_specific_file_try_def write_file_def
        split: sum.splits)

section \<open>The loops of \<^verbatim>\<open>fix_function_variable\<close>\<close>

lemma update_refs_length [simp]: "length (update_refs v c n js ls) = length ls"
  by (induction js arbitrary: ls) simp_all

lemma update_refs_nth:
  "distinct js \<Longrightarrow> k < length ls \<Longrightarrow>
   update_refs v c n js ls ! k =
     (if k \<in> set js \<and> \<not> is_assignment_loose v (ls ! k) then sub_word c n (ls ! k) else ls ! k)"
proof (induction js arbitrary: ls)
  case Nil
  then show ?case by simp
next
  case (Cons j js)
  let ?ls' = "if \<not> is_assignment_loose v (ls ! j) then ls[j := sub_word c n (ls ! j)] else ls"
  have len: "k < length ?ls'" using Cons.prems by simp
  have d: "distinct js" "j \<notin> set js" using Cons.prems by simp_all
  have "update_refs v c n (j # js) ls ! k = update_refs v c n js ?ls' ! k" by simp
  also have "\<dots> = (if k \<in> set js \<and> \<not> is_assignment_loose v (?ls' ! k)
                      then sub_word c n (?ls' ! k) else ?ls' ! k)"
    using Cons.IH [OF d(1) len] .
  also have "\<dots> = (if k \<in> set (j # js) \<and> \<not> is_assignment_loose v (ls ! k)
                      then sub_word c n (ls ! k) else ls ! k)"
  proof (cases "k = j")
    case True
    then show ?thesis using d Cons.prems by simp
  next
    case False
    then show ?thesis by auto
  qed
  finally show ?case .
qed

lemma rewrite_loop_length [simp]: "length (rewrite_loop v reps idx cur sites ls) = length ls"
  by (induction sites arbitrary: idx cur ls) (simp_all add: Let_def)

lemma rewrite_loop_before:
  "k < length ls \<Longrightarrow> \<forall>s \<in> set sites. k < s \<Longrightarrow>
   rewrite_loop v reps idx cur sites ls ! k = ls ! k"
proof (induction sites arbitrary: idx cur ls)
  case Nil
  then show ?case by simp
next
  case (Cons s sites)
  show ?case
  proof (cases "idx \<ge> length reps")
    case True
    then show ?thesis by simp
  next
    case False
    let ?new = "reps ! idx"
    let ?ls1 = "ls[s := sub_assignment v ?new (ls ! s)]"
    let ?end = "(case sites of [] \<Rightarrow> length ?ls1 | nx # _ \<Rightarrow> nx)"
    let ?ls2 = "update_refs v cur ?new [s + 1..<?end] ?ls1"
    have ks: "k < s" using Cons.prems by simp
    have "?ls2 ! k = ?ls1 ! k"
      using Cons.prems ks by (subst update_refs_nth) simp_all
    also have "\<dots> = ls ! k" using ks by simp
    finally have e: "?ls2 ! k = ls ! k" .
    have "rewrite_loop v reps idx cur (s # sites) ls ! k
        = rewrite_loop v reps (idx + 1) ?new sites ?ls2 ! k"
      using False by (simp add: Let_def)
    also have "\<dots> = ?ls2 ! k"
      using Cons.prems by (intro Cons.IH) simp_all
    finally show ?thesis using e by simp
  qed
qed

lemma rewrite_loop_site:
  "sorted_wrt (<) sites \<Longrightarrow> \<forall>s \<in> set sites. s < length ls \<Longrightarrow> m < length sites \<Longrightarrow>
   rewrite_loop v reps idx cur sites ls ! (sites ! m) =
     (if idx + m < length reps then sub_assignment v (reps ! (idx + m)) (ls ! (sites ! m))
      else ls ! (sites ! m))"
proof (induction sites arbitrary: idx cur ls m)
  case Nil
  then show ?case by simp
next
  case (Cons s sites)
  show ?case
  proof (cases "idx \<ge> length reps")
    case True
    then show ?thesis by simp
  next
    case False
    let ?new = "reps ! idx"
    let ?ls1 = "ls[s := sub_assignment v ?new (ls ! s)]"
    let ?end = "(case sites of [] \<Rightarrow> length ?ls1 | nx # _ \<Rightarrow> nx)"
    let ?ls2 = "update_refs v cur ?new [s + 1..<?end] ?ls1"
    have step: "rewrite_loop v reps idx cur (s # sites) ls
        = rewrite_loop v reps (idx + 1) ?new sites ?ls2"
      using False by (simp add: Let_def)
    have gt: "\<forall>t \<in> set sites. s < t" and so: "sorted_wrt (<) sites"
      using Cons.prems(1) by simp_all
    have sl: "s < length ls" and al: "\<forall>t \<in> set sites. t < length ?ls2"
      using Cons.prems(2) by simp_all
    show ?thesis
    proof (cases m)
      case 0
      have "rewrite_loop v reps (idx + 1) ?new sites ?ls2 ! s = ?ls2 ! s"
        using sl gt by (intro rewrite_loop_before) simp_all
      also have "\<dots> = ?ls1 ! s"
        using sl by (subst update_refs_nth) simp_all
      also have "\<dots> = sub_assignment v ?new (ls ! s)" using sl by simp
      finally show ?thesis using step 0 False by simp
    next
      case (Suc m')
      then have m': "m' < length sites" using Cons.prems(3) by simp
      let ?t = "sites ! m'"
      have tin: "?t \<in> set sites" using m' by simp
      then have st: "s < ?t" using gt by blast
      have tl: "?t < length ls" using Cons.prems(2) tin by simp
      have "?end \<le> ?t"
      proof (cases sites)
        case Nil
        then show ?thesis using m' by simp
      next
        case (Cons nx rest)
        then have "nx = sites ! 0" by simp
        moreover have "sites ! 0 \<le> sites ! m'"
          using so m' by (cases "m' = 0") (auto simp: sorted_wrt_iff_nth_less intro: less_imp_le)
        ultimately show ?thesis using Cons by simp
      qed
      then have "?ls2 ! ?t = ?ls1 ! ?t"
        using tl by (subst update_refs_nth) simp_all
      also have "\<dots> = ls ! ?t" using st by simp
      finally have e: "?ls2 ! ?t = ls ! ?t" .
      have "rewrite_loop v reps (idx + 1) ?new sites ?ls2 ! ?t =
          (if idx + 1 + m' < length reps then sub_assignment v (reps ! (idx + 1 + m')) (?ls2 ! ?t)
           else ?ls2 ! ?t)"
        using Cons.IH [OF so al m'] .
      then show ?thesis using step Suc e by simp
    qed
  qed
qed

lemma final_loop_length [simp]: "length (final_loop v f is ls) = length ls"
  by (induction "is") simp_all

lemma final_loop_nth_cases:
  "k < length ls \<Longrightarrow>
   final_loop v f is ls ! k = ls ! k \<or>
   (is_final_ref v (ls ! k) \<and> final_loop v f is ls ! k = sub_word v f (ls ! k))"
proof (induction "is")
  case Nil
  then show ?case by simp
next
  case (Cons i "is")
  then show ?case by (cases "k = i") auto
qed

lemma word_char_neq:
  "is_word c \<Longrightarrow> c \<noteq> CHR ''='' \<and> c \<noteq> CHR ''|'' \<and> c \<noteq> CHR ''{'' \<and> c \<noteq> CHR 0x0A"
  by (auto simp: is_word_def)

lemma skip_ws_Nil_iff: "skip_ws s = [] \<longleftrightarrow> list_all is_space s"
  by (simp add: skip_ws_def dropWhile_eq_Nil_conv list_all_iff)

lemma skip_ws_spaces_nonspace:
  "list_all is_space ws \<Longrightarrow> \<not> is_space c \<Longrightarrow> skip_ws (ws @ c # s) = c # s"
  by (simp add: skip_ws_append_spaces skip_ws_nonspace)

lemma takeWhile_spaces_nonspace:
  "list_all is_space ws \<Longrightarrow> \<not> is_space c \<Longrightarrow> takeWhile is_space (ws @ c # s) = ws"
  by (induction ws) simp_all

lemma prefix_word_run:
  assumes "list_all is_word v" "prefix v (n @ t)" "t = [] \<or> \<not> is_word (hd t)"
  shows "prefix v n"
proof (rule ccontr)
  assume np: "\<not> prefix v n"
  from assms(2) obtain us where us: "v = n @ us" "prefix us t"
    using np by (auto simp: prefix_append)
  with np have "us \<noteq> []" by auto
  then obtain u us' where u: "us = u # us'" by (cases us) auto
  with us obtain t' where "t = u # t'" by (auto simp: prefix_def)
  moreover have "is_word u" using assms(1) us(1) u by simp
  ultimately show False using assms(3) by simp
qed

lemma assignment_shape_not_final_ref:
  assumes v: "is_ident v" and n: "is_ident n"
    and ws: "list_all is_space ws" "list_all is_space ws'"
  shows "\<not> is_final_ref v (ws @ n @ ws' @ CHR ''='' # rest)"
proof -
  let ?t = "ws' @ CHR ''='' # rest"
  let ?l = "ws @ n @ ?t"
  from n obtain c cs where ncs: "n = c # cs" and cw: "is_word c"
    by (cases n) (auto simp: is_ident_def)
  have cns: "\<not> is_space c" using cw word_not_space by blast
  have sk: "skip_ws ?l = n @ ?t"
    using ws(1) cns ncs by (simp add: skip_ws_append_spaces skip_ws_nonspace)
  have thd: "?t = [] \<or> \<not> is_word (hd ?t)"
  proof (cases ws')
    case Nil
    then show ?thesis using word_char_neq by auto
  next
    case (Cons a as)
    then have "is_space a" using ws(2) by simp
    then show ?thesis using Cons word_not_space by auto
  qed
  have vw: "list_all is_word v" using v by (simp add: is_ident_def)
  have nw: "list_all is_word n" using n by (simp add: is_ident_def)
  have rest_shape: "prefix v (n @ ?t) \<Longrightarrow>
      \<exists>d. drop (length v) (n @ ?t) = d @ ?t \<and> list_all is_word d"
  proof -
    assume "prefix v (n @ ?t)"
    then have "prefix v n" using prefix_word_run [OF vw _ thd] by blast
    then obtain d where "n = v @ d" by (auto simp: prefix_def)
    then show ?thesis using nw by auto
  qed
  have not_bare: "\<not> is_bare_ref v ?l"
  proof
    assume "is_bare_ref v ?l"
    then have p: "prefix v (n @ ?t)" and e: "skip_ws (drop (length v) (n @ ?t)) = []"
      by (simp_all add: is_bare_ref_def sk)
    from rest_shape [OF p] obtain d where d: "drop (length v) (n @ ?t) = d @ ?t" by blast
    from e [unfolded d] have "list_all is_space (d @ ?t)" by (simp only: skip_ws_Nil_iff)
    then show False using eq_not_space by simp
  qed
  have not_pipe: "\<not> is_pipe_ref v ?l"
  proof
    assume "is_pipe_ref v ?l"
    then have p: "prefix v (n @ ?t)"
      and e: "prefix ''|>'' (skip_ws (drop (length v) (n @ ?t)))"
      by (simp_all add: is_pipe_ref_def sk)
    from rest_shape [OF p] obtain d where d: "drop (length v) (n @ ?t) = d @ ?t"
      "list_all is_word d" by blast
    note e' = e [unfolded d(1)]
    show False
    proof (cases d)
      case Nil
      have "skip_ws (ws' @ CHR ''='' # rest) = CHR ''='' # rest"
        using ws(2) by (simp add: skip_ws_spaces_nonspace eq_not_space)
      with e' Nil show False by simp
    next
      case (Cons x xs)
      then have xw: "is_word x" using d(2) by simp
      then have "skip_ws (x # xs @ ?t) = x # xs @ ?t"
        using word_not_space by (simp add: skip_ws_nonspace)
      with e' Cons have "x = CHR ''|''" by simp
      with xw show False using word_char_neq by blast
    qed
  qed
  have not_tuple: "\<not> is_ok_tuple_ref v ?l"
  proof -
    have "skip_ws ?l = c # (cs @ ?t)" using sk ncs by simp
    moreover have "c \<noteq> CHR ''{''" using cw word_char_neq by blast
    ultimately show ?thesis by (simp add: is_ok_tuple_ref_def)
  qed
  from not_bare not_pipe not_tuple show ?thesis by (simp add: is_final_ref_def)
qed

lemma sub_assignment_shape:
  assumes "is_ident v" "list_all is_space ws" "list_all is_space ws'"
  shows "sub_assignment v n (ws @ v @ ws' @ CHR ''='' # rest) = ws @ n @ ws' @ CHR ''='' # rest"
proof -
  from assms(1) obtain c cs where v: "v = c # cs" "\<not> is_space c"
    using ident_hd_not_space by blast
  let ?l = "ws @ v @ ws' @ CHR ''='' # rest"
  have sk: "skip_ws ?l = v @ ws' @ CHR ''='' # rest"
    using assms(2) v by (simp add: skip_ws_append_spaces skip_ws_nonspace)
  have tk: "takeWhile is_space ?l = ws"
    using assms(2) v by (simp add: takeWhile_spaces_nonspace)
  have "is_assignment_loose v ?l"
    unfolding is_assignment_loose_iff [OF assms(1)] using assms(2,3) by blast
  then show ?thesis by (simp add: sub_assignment_def sk tk)
qed

lemma naming_strategies_table:
  "list_all (\<lambda>(k, ns). length ns = 6 \<and> list_all is_ident ns \<and> list_all (\<lambda>n. n \<noteq> k) ns)
     naming_strategies"
  by code_simp

lemma naming_strategies_entry:
  assumes "map_of naming_strategies v = Some ns"
  shows "length ns = 6 \<and> list_all is_ident ns \<and> list_all (\<lambda>n. n \<noteq> v) ns"
proof -
  from assms have "(v, ns) \<in> set naming_strategies" by (rule map_of_SomeD)
  with naming_strategies_table show ?thesis by (auto simp: list_all_iff)
qed

lemma is_ident_prefixed: "is_ident p \<Longrightarrow> is_ident v \<Longrightarrow> is_ident (p @ v)"
  by (cases p) (auto simp: is_ident_def)

lemma replacements_for_length [simp]: "length (replacements_for v) = 6"
  using naming_strategies_entry [of v]
  by (auto simp: replacements_for_def split: option.splits)

lemma replacements_for_idents:
  assumes "is_ident v"
  shows "list_all is_ident (replacements_for v)"
proof (cases "map_of naming_strategies v")
  case None
  have p: "is_ident ''initial_''" "is_ident ''base_''" "is_ident ''enhanced_''"
    "is_ident ''processed_''" "is_ident ''updated_''" "is_ident ''final_''"
    by code_simp+
  show ?thesis
    using None p assms by (simp add: replacements_for_def is_ident_prefixed del: append.simps)
next
  case (Some ns)
  then show ?thesis using naming_strategies_entry [OF Some] by (simp add: replacements_for_def)
qed

lemma replacements_for_fresh: "list_all (\<lambda>n. n \<noteq> v) (replacements_for v)"
proof (cases "map_of naming_strategies v")
  case None
  have "\<And>p. p \<noteq> [] \<Longrightarrow> p @ v \<noteq> v" by simp
  then show ?thesis using None by (simp add: replacements_for_def)
next
  case (Some ns)
  then show ?thesis using naming_strategies_entry [OF Some] by (simp add: replacements_for_def)
qed

lemma is_assignment_imp_loose: "is_assignment v l \<Longrightarrow> is_assignment_loose v l"
  by (auto simp: is_assignment_def is_assignment_loose_def Let_def split: list.splits)

lemma fix_function_variable_many:
  assumes "1 < length (assignment_lines v (split_lines f))" "reps \<noteq> []"
  shows "fix_function_variable f v reps =
    Inr (join_lines
      (let ls = split_lines f;
           sites = assignment_lines v ls;
           ls1 = rewrite_loop v reps 0 v sites ls
       in final_loop v (reps ! min (length sites - 1) (length reps - 1)) (rev [0..<length ls1]) ls1))"
  using assms by (simp add: fix_function_variable_def fix_function_lines_def final_name_def Let_def)

lemma site_line_after_rewrite:
  assumes v: "is_ident v" and reps: "list_all is_ident reps"
    and sites: "sites = assignment_lines v ls" and m: "m < length sites"
  shows "final_loop v f is (rewrite_loop v reps 0 v sites ls) ! (sites ! m) =
         (if m < length reps
          then takeWhile is_space (ls ! (sites ! m)) @ reps ! m @
               drop (length v) (skip_ws (ls ! (sites ! m)))
          else ls ! (sites ! m))"
proof -
  let ?s = "sites ! m"
  let ?ls1 = "rewrite_loop v reps 0 v sites ls"
  have sin: "?s \<in> set sites" using m by simp
  then have sl: "?s < length ls" and a: "is_assignment v (ls ! ?s)"
    using sites by (simp_all add: assignment_lines_set)
  from a obtain ws ws' rest where shape: "ls ! ?s = ws @ v @ ws' @ CHR ''='' # rest"
    and ws: "list_all is_space ws" "list_all is_space ws'"
    using is_assignment_iff [OF v] by blast
  have so: "sorted_wrt (<) sites" using sites assignment_lines_sorted by simp
  have al: "\<forall>s \<in> set sites. s < length ls" using sites by (simp add: assignment_lines_set)
  have r: "?ls1 ! ?s = (if m < length reps then sub_assignment v (reps ! m) (ls ! ?s) else ls ! ?s)"
    using rewrite_loop_site [OF so al m, of v reps 0 v] by simp
  have nf: "\<not> is_final_ref v (?ls1 ! ?s)"
  proof (cases "m < length reps")
    case True
    then have "is_ident (reps ! m)" using reps by (simp add: list_all_length)
    then show ?thesis
      using r True shape sub_assignment_shape [OF v ws] assignment_shape_not_final_ref [OF v _ ws]
      by simp
  next
    case False
    then show ?thesis using r shape assignment_shape_not_final_ref [OF v v ws] by simp
  qed
  have "final_loop v f is ?ls1 ! ?s = ?ls1 ! ?s"
    using final_loop_nth_cases [of ?s ?ls1 v f "is"] sl nf by simp
  moreover have "sub_assignment v n (ls ! ?s) =
      takeWhile is_space (ls ! ?s) @ n @ drop (length v) (skip_ws (ls ! ?s))" for n
    using a by (simp add: sub_assignment_def is_assignment_imp_loose)
  ultimately show ?thesis using r by simp
qed

lemma final_loop_first_match:
  "final_loop v f is ls =
     (case filter (\<lambda>i. is_final_ref v (ls ! i)) is of
        [] \<Rightarrow> ls
      | i # _ \<Rightarrow> ls[i := sub_word v f (ls ! i)])"
  by (induction "is") simp_all

section \<open>Facts about the region locator\<close>

lemma find_functions_member:
  "m \<in> set (find_functions content) \<Longrightarrow> \<exists>s. match_function s = Some m"
proof (induction content rule: find_functions.induct)
  case 1
  then show ?case by simp
next
  case (2 c cs)
  then show ?case by (cases "match_function (c # cs)") auto
qed

lemma lazy_body_prefix: "prefix (lazy_body t) t"
  by (induction t) simp_all

lemma lazy_body_no_end: "k < length (lazy_body t) \<Longrightarrow> \<not> at_region_end (drop k t)"
proof (induction t arbitrary: k)
  case Nil
  then show ?case by simp
next
  case (Cons c cs)
  then show ?case by (cases k) (auto split: if_splits)
qed

lemma starts_def_kw_append: "starts_def_kw x \<Longrightarrow> starts_def_kw (x @ r)"
  by (auto simp: starts_def_kw_def prefix_def split: list.splits)

lemma skip_ws_append_nonempty: "skip_ws u \<noteq> [] \<Longrightarrow> skip_ws (u @ r) = skip_ws u @ r"
  by (auto simp: skip_ws_def dropWhile_append dropWhile_eq_Nil_conv)

lemma starts_def_kw_nonempty: "starts_def_kw x \<Longrightarrow> x \<noteq> []"
  by (auto simp: starts_def_kw_def)

lemma take_length_prefix: "take (length a) (a @ b) = a"
  by simp

lemma match_header_shape:
  assumes "match_header s = Some h"
  shows "\<exists>p ws name. h = ''def'' @ p @ ws @ name \<and> (p = [] \<or> p = ''p'') \<and>
           ws \<noteq> [] \<and> list_all is_space ws \<and> name \<noteq> [] \<and> list_all is_word name \<and>
           prefix h s"
proof -
  from assms have pre: "prefix ''def'' s" by (auto simp: match_header_def split: if_splits)
  then obtain s1 where s: "s = ''def'' @ s1" by (auto simp: prefix_def)
  define s2 where "s2 = (case s1 of [] \<Rightarrow> s1 | c # r \<Rightarrow> if c = CHR ''p'' then r else s1)"
  define p where "p = (case s1 of [] \<Rightarrow> [] | c # r \<Rightarrow> if c = CHR ''p'' then ''p'' else [])"
  have s1: "s1 = p @ s2" "p = [] \<or> p = ''p''"
    by (auto simp: s2_def p_def split: list.splits)
  define ws where "ws = takeWhile is_space s2"
  define s3 where "s3 = skip_ws s2"
  define name where "name = takeWhile is_word s3"
  define rest where "rest = dropWhile is_word s3"
  have s2: "s2 = ws @ s3" by (simp add: ws_def s3_def skip_ws_def)
  have s3: "s3 = name @ rest" by (simp add: name_def rest_def)
  have d3: "drop 3 s = s1" using s by simp
  from assms have c: "s3 \<noteq> s2" "name \<noteq> []"
    and h: "h = take (length s - length rest) s"
    unfolding match_header_def using pre
    by (auto simp: Let_def d3 s2_def [symmetric] s3_def [symmetric] name_def [symmetric]
        rest_def [symmetric] split: if_splits)
  have full: "s = (''def'' @ p @ ws @ name) @ rest"
    using s s1 s2 s3 by simp
  have len: "length s - length rest = length (''def'' @ p @ ws @ name)"
    by (subst full) (simp only: length_append add_diff_cancel_right')
  have "h = ''def'' @ p @ ws @ name"
    unfolding h len by (subst full) (rule take_length_prefix)
  moreover have "ws \<noteq> []" using c(1) s2 by auto
  moreover have "list_all is_space ws"
    unfolding ws_def list_all_iff by (meson set_takeWhileD)
  moreover have "list_all is_word name"
    unfolding name_def list_all_iff by (meson set_takeWhileD)
  moreover have "prefix (''def'' @ p @ ws @ name) s"
    using full by (metis prefixI)
  ultimately show ?thesis using s1(2) c(2) by blast
qed

section \<open>The assignment scanner\<close>

text \<open>
  Claim C4, as the specification words it, fails: the scanner's pattern excludes
  only a \<^verbatim>\<open>=\<close> that is followed by a second \<^verbatim>\<open>=\<close>, so the line \<^verbatim>\<open>recommendations =~ x\<close>,
  whose \<^verbatim>\<open>=\<close> is part of the match operator \<^verbatim>\<open>=~\<close>, is reported as an assignment site.
\<close>

theorem scanner_counterexample:
  "is_assignment ''recommendations'' ''recommendations =~ x'' \<and>
   \<not> spec_is_assignment ''recommendations'' ''recommendations =~ x''"
  by code_simp

text \<open>
  Claim C4, amended: for an identifier, line \<open>i\<close> is an assignment site if and only if
  it is white space, the identifier, white space, and a \<^verbatim>\<open>=\<close> that is not directly
  followed by another \<^verbatim>\<open>=\<close>; the sites are in strictly increasing order; there are none
  exactly when no line of the region is such a line; a line \<^verbatim>\<open>identifier == x\<close> is
  never a site.
\<close>

theorem scanner_sites:
  assumes "is_ident var_name"
  shows "(i \<in> set (assignment_lines var_name lines) \<longleftrightarrow>
            i < length lines \<and>
            (\<exists>ws ws' rest. lines ! i = ws @ var_name @ ws' @ CHR ''='' # rest \<and>
               list_all is_space ws \<and> list_all is_space ws' \<and> \<not> prefix ''='' rest)) \<and>
         sorted_wrt (<) (assignment_lines var_name lines) \<and>
         (assignment_lines var_name lines = [] \<longleftrightarrow>
            \<not> list_ex (is_assignment var_name) lines) \<and>
         \<not> is_assignment var_name (var_name @ '' == x'')"
proof -
  have a: "i \<in> set (assignment_lines var_name lines) \<longleftrightarrow>
            i < length lines \<and>
            (\<exists>ws ws' rest. lines ! i = ws @ var_name @ ws' @ CHR ''='' # rest \<and>
               list_all is_space ws \<and> list_all is_space ws' \<and> \<not> prefix ''='' rest)"
    using is_assignment_iff [OF assms] by (simp add: assignment_lines_set)
  have "assignment_lines var_name lines = [] \<longleftrightarrow> set (assignment_lines var_name lines) = {}"
    by simp
  also have "\<dots> \<longleftrightarrow> \<not> list_ex (is_assignment var_name) lines"
    unfolding assignment_lines_set by (auto simp: list_ex_length)
  finally have c: "assignment_lines var_name lines = [] \<longleftrightarrow>
      \<not> list_ex (is_assignment var_name) lines" .
  from assms obtain c cs where v: "var_name = c # cs" "\<not> is_space c"
    using ident_hd_not_space by blast
  have d1: "skip_ws (var_name @ '' == x'') = var_name @ '' == x''"
    using v by (simp add: skip_ws_nonspace)
  have d2: "skip_ws '' == x'' = ''== x''"
    by (simp add: skip_ws_def is_space_def)
  have d: "\<not> is_assignment var_name (var_name @ '' == x'')"
    by (simp add: is_assignment_def d1 d2)
  from a assignment_lines_sorted c d show ?thesis by blast
qed

theorem scanner_sites_witness:
  "is_ident ''x'' \<and>
   assignment_lines ''x'' [''def f do'', ''  x = 1'', ''  x == 2'', ''  x  =3'', ''end''] = [1, 3] \<and>
   (1 \<in> set (assignment_lines ''x'' [''def f do'', ''  x = 1'', ''  x == 2'', ''  x  =3'', ''end'']) \<longleftrightarrow>
      (1::nat) < length [''def f do'', ''  x = 1'', ''  x == 2'', ''  x  =3'', ''end''] \<and>
      (\<exists>ws ws' rest. [''def f do'', ''  x = 1'', ''  x == 2'', ''  x  =3'', ''end''] ! 1
           = ws @ ''x'' @ ws' @ CHR ''='' # rest \<and>
         list_all is_space ws \<and> list_all is_space ws' \<and> \<not> prefix ''='' rest)) \<and>
   \<not> is_assignment ''x'' (''x'' @ '' == x'')"
proof -
  have h: "is_ident ''x''" by code_simp
  have e: "assignment_lines ''x'' [''def f do'', ''  x = 1'', ''  x == 2'', ''  x  =3'', ''end'']
      = [1, 3]" by code_simp
  show ?thesis
    using scanner_sites [OF h, of 1 "[''def f do'', ''  x = 1'', ''  x == 2'', ''  x  =3'', ''end'']"]
      h e by blast
qed

section \<open>Scenario A\<close>

text \<open>
  Claim C2 fails on the code: the right-hand side of the second assignment is not
  renamed, because the reference loop skips every line that is itself an
  assignment, and the substitution on an assignment line replaces the leading
  name only.
\<close>

theorem scenario_a_counterexample:
  "fix_function_variable scenario_a ''recommendations'' (replacements_for ''recommendations'') \<noteq>
     Inr (join_lines
       [''initial_recommendations = []'',
        ''base_recommendations = [initial_recommendations, '' @ [CHR 0x22] @ ''x'' @ [CHR 0x22] @ '']'',
        ''base_recommendations''])"
  unfolding scenario_a_def by code_simp

text \<open>
  Claim C2, amended: rewriting \<^verbatim>\<open>recommendations\<close> in the three lines of Scenario A
  gives \<^verbatim>\<open>initial_recommendations = []\<close>, then
  \<^verbatim>\<open>base_recommendations = [recommendations, "x"]\<close> (the reference on the right-hand
  side keeps the original name), then \<^verbatim>\<open>base_recommendations\<close>; and so does the
  whole pass over a file whose only function has these three body lines.
\<close>

theorem scenario_a_rewrite:
  "fix_function_variable scenario_a ''recommendations'' (replacements_for ''recommendations'') =
     Inr (join_lines
       [''initial_recommendations = []'',
        ''base_recommendations = [recommendations, '' @ [CHR 0x22] @ ''x'' @ [CHR 0x22] @ '']'',
        ''base_recommendations'']) \<and>
   fix_variable_in_content scenario_a_file ''recommendations'' =
     Inr (join_lines
       [''def build do'',
        ''  initial_recommendations = []'',
        ''  base_recommendations = [recommendations, '' @ [CHR 0x22] @ ''x'' @ [CHR 0x22] @ '']'',
        ''  base_recommendations'',
        ''end'',
        []])"
  unfolding scenario_a_def scenario_a_file_def by code_simp

section \<open>Single assignment\<close>

text \<open>
  Claim C5: a region with at most one assignment site for the identifier is
  returned by the rewriter as it is, character for character.
\<close>

theorem single_assignment_noop:
  "length (assignment_lines var_name (split_lines func_content)) \<le> 1 \<Longrightarrow>
   fix_function_variable func_content var_name replacements = Inr func_content"
  by (simp add: fix_function_variable_def)

theorem single_assignment_noop_witness:
  "length (assignment_lines ''x'' (split_lines single_region)) = 1 \<and>
   fix_function_variable single_region ''x'' (replacements_for ''x'') = Inr single_region"
proof -
  have h: "length (assignment_lines ''x'' (split_lines single_region)) = 1"
    unfolding single_region_def by code_simp
  then have "length (assignment_lines ''x'' (split_lines single_region)) \<le> 1" by simp
  from single_assignment_noop [OF this] h show ?thesis by simp
qed

section \<open>The substring gate of \<^verbatim>\<open>fix_variable_in_content\<close>\<close>

text \<open>
  Claim C10: a located region whose text does not contain the identifier followed
  by one space and \<^verbatim>\<open>=\<close> is passed over by the loop over the regions, and a file all
  of whose regions are such is returned unchanged, also where the scanner's line
  pattern finds two or more sites (the witness: assignments written \<^verbatim>\<open>x= 1\<close>).
\<close>

theorem precheck_gates_rewrite:
  "(\<not> contains (var_name @ '' ='') func_content \<longrightarrow>
      fix_functions_loop var_name replacements (func_content # functions) content =
      fix_functions_loop var_name replacements functions content) \<and>
   ((\<forall>r \<in> set (find_functions content). \<not> contains (var_name @ '' ='') r) \<longrightarrow>
      fix_variable_in_content content var_name = Inr content)"
  by (simp add: fix_variable_in_content_def fix_functions_loop_skip)

theorem precheck_gates_rewrite_witness:
  "find_functions tight_region = [tight_region] \<and>
   \<not> contains (''x'' @ '' ='') tight_region \<and>
   length (assignment_lines ''x'' (split_lines tight_region)) = 2 \<and>
   fix_function_variable tight_region ''x'' (replacements_for ''x'') \<noteq> Inr tight_region \<and>
   fix_functions_loop ''x'' (replacements_for ''x'') [tight_region] tight_region = Inr tight_region \<and>
   fix_variable_in_content tight_region ''x'' = Inr tight_region"
proof -
  have r: "find_functions tight_region = [tight_region]"
    unfolding tight_region_def by code_simp
  have c: "\<not> contains (''x'' @ '' ='') tight_region"
    unfolding tight_region_def by code_simp
  have n: "length (assignment_lines ''x'' (split_lines tight_region)) = 2"
    unfolding tight_region_def by code_simp
  have d: "fix_function_variable tight_region ''x'' (replacements_for ''x'') \<noteq> Inr tight_region"
    unfolding tight_region_def by code_simp
  from r c have a: "\<forall>r \<in> set (find_functions tight_region). \<not> contains (''x'' @ '' ='') r"
    by simp
  show ?thesis
    using precheck_gates_rewrite [of "''x''" tight_region "replacements_for ''x''" "[]" tight_region]
      r c n d a by simp
qed

section \<open>The orchestrator\<close>

text \<open>
  Claim C9: \<^verbatim>\<open>fix_specific_file_issues\<close> returns true exactly when it wrote the file,
  and it writes exactly when the file could be read, the rewritten text differs
  from the text read, and the file could be opened for writing; the text written
  is the rewritten text. When reading fails, or the text differs and writing
  fails, the error is printed, nothing is written, the files are as before, and
  the result is false: a value, not an exception, so the caller's loop over the
  files goes on.
\<close>

theorem orchestrator_writes_iff_changed:
  assumes "fix_specific_file_issues w filepath var_issues = (changed, w')"
  shows "(changed \<longleftrightarrow> written w' \<noteq> written w) \<and>
         (written w' \<noteq> written w \<longleftrightarrow>
            (\<exists>old new. read_file w filepath = Inr old \<and>
               fix_each_variable (vars_to_fix var_issues) old = Inr new \<and> new \<noteq> old \<and>
               writable w filepath \<and> written w' = written w @ [(filepath, new)] \<and>
               files w' = (files w)(filepath \<mapsto> new))) \<and>
         ((read_file w filepath = Inl OSError \<or>
           (\<not> writable w filepath \<and> (\<exists>old new. read_file w filepath = Inr old \<and>
               fix_each_variable (vars_to_fix var_issues) old = Inr new \<and> new \<noteq> old))) \<longrightarrow>
            \<not> changed \<and> written w' = written w \<and> files w' = files w \<and>
            printed w' = printed w @ [''Error processing '' @ filepath])"
  using assms unfolding fix_specific_file_issues_unfold
  by (auto split: sum.splits if_splits simp: read_file_def)

theorem orchestrator_writes_iff_changed_witness:
  "fst (fix_specific_file_issues eight_world ''lib/a.ex'' [(''x'', ''3''), (''x'', ''4'')]) \<and>
   written (snd (fix_specific_file_issues eight_world ''lib/a.ex'' [(''x'', ''3''), (''x'', ''4'')]))
     = [(''lib/a.ex'', eight_once)] \<and>
   \<not> fst (fix_specific_file_issues locked_world ''lib/a.ex'' [(''x'', ''3''), (''x'', ''4'')]) \<and>
   printed (snd (fix_specific_file_issues locked_world ''lib/a.ex'' [(''x'', ''3''), (''x'', ''4'')]))
     = [''Error processing lib/a.ex''] \<and>
   \<not> fst (fix_specific_file_issues eight_world ''lib/b.ex'' [(''x'', ''3''), (''x'', ''4'')])"
proof -
  let ?vi = "[(''x'', ''3''), (''x'', ''4'')]"
  let ?a = "fix_specific_file_issues eight_world ''lib/a.ex'' ?vi"
  let ?l = "fix_specific_file_issues locked_world ''lib/a.ex'' ?vi"
  let ?b = "fix_specific_file_issues eight_world ''lib/b.ex'' ?vi"
  have wa: "written (snd ?a) = [(''lib/a.ex'', eight_once)]"
    unfolding eight_world_def eight_file_def eight_once_def by code_simp
  have w0: "written eight_world = []" "printed locked_world = []"
    by (simp_all add: eight_world_def locked_world_def)
  have a: "fst ?a"
    using orchestrator_writes_iff_changed [of eight_world "''lib/a.ex''" ?vi "fst ?a" "snd ?a"]
      wa w0 by simp
  have rl: "read_file locked_world ''lib/a.ex'' = Inr eight_file"
    by (simp add: read_file_def locked_world_def)
  have fl: "fix_each_variable (vars_to_fix ?vi) eight_file = Inr eight_once"
    unfolding eight_file_def eight_once_def by code_simp
  have ne: "eight_once \<noteq> eight_file"
    unfolding eight_file_def eight_once_def by code_simp
  have nw: "\<not> writable locked_world ''lib/a.ex''"
    by (simp add: locked_world_def)
  have l: "\<not> fst ?l \<and> printed (snd ?l) = [''Error processing lib/a.ex'']"
    using orchestrator_writes_iff_changed [of locked_world "''lib/a.ex''" ?vi "fst ?l" "snd ?l"]
      rl fl ne nw w0 by auto
  have rb: "read_file eight_world ''lib/b.ex'' = Inl OSError"
    by (simp add: read_file_def eight_world_def)
  have b: "\<not> fst ?b"
    using orchestrator_writes_iff_changed [of eight_world "''lib/b.ex''" ?vi "fst ?b" "snd ?b"]
      rb by simp
  from a wa l b show ?thesis by simp
qed

section \<open>Running the orchestrator twice\<close>

text \<open>
  Claim C1 fails on the code: in a function with eight assignments to \<^verbatim>\<open>x\<close> the first
  call renames six of them (the naming sequence has six names) and leaves two, so
  the second call finds two assignment sites again, renames them and reports a
  change.
\<close>

theorem idempotence_counterexample:
  "fst (fix_specific_file_issues eight_world ''lib/a.ex'' [(''x'', ''3'')]) \<and>
   fst (fix_specific_file_issues
          (snd (fix_specific_file_issues eight_world ''lib/a.ex'' [(''x'', ''3'')]))
          ''lib/a.ex'' [(''x'', ''3'')]) \<and>
   written (snd (fix_specific_file_issues
          (snd (fix_specific_file_issues eight_world ''lib/a.ex'' [(''x'', ''3'')]))
          ''lib/a.ex'' [(''x'', ''3'')])) = [(''lib/a.ex'', eight_once), (''lib/a.ex'', eight_twice)]"
  unfolding eight_world_def eight_file_def eight_once_def eight_twice_def by code_simp

section \<open>The region locator and nested definitions\<close>

text \<open>
  Claim C8 fails on the code: the locator's pattern has no nesting counter. The
  region of \<^verbatim>\<open>outer\<close> ends before the line break in front of the inner \<^verbatim>\<open>def\<close>, and the
  inner definition is a region of its own; the outer definition is not among the
  regions.
\<close>

theorem locator_counterexample:
  "find_functions nested_file =
     [''def outer do'', join_lines [''def inner do'', ''    x'', ''  end'']] \<and>
   join_lines [''def outer do'', ''  def inner do'', ''    x'', ''  end'', ''end'']
     \<notin> set (find_functions nested_file)"
  unfolding nested_file_def by code_simp

text \<open>
  Claim C8, amended: the locator keeps no nesting depth. Every located region is
  \<^verbatim>\<open>def\<close> or \<^verbatim>\<open>defp\<close>, white space, a name, and a body in which no line break is
  followed by white space and \<^verbatim>\<open>def\<close>/\<^verbatim>\<open>defp\<close> with a white space behind it: a nested
  definition always ends the region of the definition around it, which is therefore
  never returned as one region.
\<close>

theorem region_ends_at_inner_def:
  assumes "m \<in> set (find_functions content)"
  shows "\<exists>p ws name body.
           m = ''def'' @ p @ ws @ name @ body \<and> (p = [] \<or> p = ''p'') \<and>
           ws \<noteq> [] \<and> list_all is_space ws \<and> name \<noteq> [] \<and> list_all is_word name \<and>
           \<not> list_ex (\<lambda>k. body ! k = CHR 0x0A \<and> starts_def_kw (skip_ws (drop (Suc k) body)))
               [0..<length body]"
proof -
  from find_functions_member [OF assms] obtain s where ms: "match_function s = Some m" by blast
  then obtain h where h: "match_header s = Some h" and m: "m = h @ lazy_body (drop (length h) s)"
    by (auto simp: match_function_def split: option.splits)
  let ?t = "drop (length h) s"
  let ?b = "lazy_body ?t"
  from match_header_shape [OF h] obtain p ws name where
    sh: "h = ''def'' @ p @ ws @ name" "p = [] \<or> p = ''p''" "ws \<noteq> []" "list_all is_space ws"
        "name \<noteq> []" "list_all is_word name" by blast
  obtain r where r: "?t = ?b @ r" using lazy_body_prefix [of ?t] by (auto simp: prefix_def)
  have nb: "\<not> (?b ! k = CHR 0x0A \<and> starts_def_kw (skip_ws (drop (Suc k) ?b)))"
    if k: "k < length ?b" for k
  proof
    assume a: "?b ! k = CHR 0x0A \<and> starts_def_kw (skip_ws (drop (Suc k) ?b))"
    have dk: "drop k ?t = CHR 0x0A # (drop (Suc k) ?b @ r)"
      using k a by (subst r, simp add: Cons_nth_drop_Suc [symmetric])
    have "skip_ws (drop (Suc k) ?b @ r) = skip_ws (drop (Suc k) ?b) @ r"
      using a starts_def_kw_nonempty by (intro skip_ws_append_nonempty) blast
    then have "starts_def_kw (skip_ws (drop (Suc k) ?b @ r))"
      using a starts_def_kw_append by simp
    then have "at_region_end (drop k ?t)"
      unfolding dk by (simp add: at_region_end_def)
    with lazy_body_no_end [OF k] show False by blast
  qed
  have "\<not> list_ex (\<lambda>k. ?b ! k = CHR 0x0A \<and> starts_def_kw (skip_ws (drop (Suc k) ?b)))
               [0..<length ?b]"
    using nb by (auto simp: list_ex_iff)
  with m sh show ?thesis by auto
qed

theorem region_ends_at_inner_def_witness:
  "''def outer do'' \<in> set (find_functions nested_file) \<and>
   (\<exists>p ws name body.
           ''def outer do'' = ''def'' @ p @ ws @ name @ body \<and> (p = [] \<or> p = ''p'') \<and>
           ws \<noteq> [] \<and> list_all is_space ws \<and> name \<noteq> [] \<and> list_all is_word name \<and>
           \<not> list_ex (\<lambda>k. body ! k = CHR 0x0A \<and> starts_def_kw (skip_ws (drop (Suc k) body)))
               [0..<length body])"
proof -
  have h: "''def outer do'' \<in> set (find_functions nested_file)"
    unfolding nested_file_def by code_simp
  from region_ends_at_inner_def [OF h] h show ?thesis by blast
qed

section \<open>More assignments than names\<close>

text \<open>
  Claim C7: when a region has more assignment sites for an identifier than the
  naming sequence has names, \<^verbatim>\<open>fix_function_variable\<close> returns a text (it raises
  nothing) with the same number of lines, in which the first sites, as many as
  there are names, carry the names of the sequence in order in place of the leading
  identifier, and every further assignment line is as it was.
\<close>

theorem coverage_gap:
  assumes "is_ident var_name"
    and "lines = split_lines func_content"
    and "sites = assignment_lines var_name lines"
    and "names = replacements_for var_name"
    and "length names < length sites"
  shows "\<exists>out. fix_function_variable func_content var_name names = Inr (join_lines out) \<and>
           length out = length lines \<and>
           (\<forall>m < length sites. out ! (sites ! m) =
              (if m < length names
               then takeWhile is_space (lines ! (sites ! m)) @ names ! m @
                    drop (length var_name) (skip_ws (lines ! (sites ! m)))
               else lines ! (sites ! m)))"
proof -
  have "length names = 6" using assms(4) by simp
  then have ne: "names \<noteq> []" by auto
  have many: "1 < length (assignment_lines var_name (split_lines func_content))"
    using assms(2-5) replacements_for_length [of var_name] by simp
  let ?ls1 = "rewrite_loop var_name names 0 var_name sites lines"
  let ?f = "names ! min (length sites - 1) (length names - 1)"
  let ?out = "final_loop var_name ?f (rev [0..<length ?ls1]) ?ls1"
  have "fix_function_variable func_content var_name names = Inr (join_lines ?out)"
    using fix_function_variable_many [OF many ne] assms(2,3) by (simp add: Let_def)
  moreover have "length ?out = length lines" by simp
  moreover have "\<forall>m < length sites. ?out ! (sites ! m) =
              (if m < length names
               then takeWhile is_space (lines ! (sites ! m)) @ names ! m @
                    drop (length var_name) (skip_ws (lines ! (sites ! m)))
               else lines ! (sites ! m))"
    using site_line_after_rewrite [OF assms(1) _ assms(3)] replacements_for_idents [OF assms(1)]
      assms(4) by blast
  ultimately show ?thesis by blast
qed

theorem coverage_gap_witness:
  "is_ident ''x'' \<and>
   length (replacements_for ''x'') < length (assignment_lines ''x'' (split_lines seven_region)) \<and>
   fix_function_variable seven_region ''x'' (replacements_for ''x'') =
     Inr (join_lines
       [''def f do'', ''  initial_x = 1'', ''  base_x = 2'', ''  enhanced_x = 3'',
        ''  processed_x = 4'', ''  updated_x = 5'', ''  final_x = 6'', ''  x = 7'',
        ''  final_x'', ''end'']) \<and>
   (\<exists>out. fix_function_variable seven_region ''x'' (replacements_for ''x'') = Inr (join_lines out) \<and>
      length out = length (split_lines seven_region) \<and>
      out ! (assignment_lines ''x'' (split_lines seven_region) ! 6) = ''  x = 7'')"
proof -
  have h: "is_ident ''x''" by code_simp
  have s: "assignment_lines ''x'' (split_lines seven_region) = [1, 2, 3, 4, 5, 6, 7]"
    unfolding seven_region_def by code_simp
  have l: "length (replacements_for ''x'') < length (assignment_lines ''x'' (split_lines seven_region))"
    unfolding s by simp
  have e: "fix_function_variable seven_region ''x'' (replacements_for ''x'') =
     Inr (join_lines
       [''def f do'', ''  initial_x = 1'', ''  base_x = 2'', ''  enhanced_x = 3'',
        ''  processed_x = 4'', ''  updated_x = 5'', ''  final_x = 6'', ''  x = 7'',
        ''  final_x'', ''end''])"
    unfolding seven_region_def by code_simp
  have n: "split_lines seven_region ! 7 = ''  x = 7''"
    unfolding seven_region_def by code_simp
  from coverage_gap [OF h refl refl refl l] obtain out where
    o: "fix_function_variable seven_region ''x'' (replacements_for ''x'') = Inr (join_lines out)"
       "length out = length (split_lines seven_region)"
       "\<forall>m < length (assignment_lines ''x'' (split_lines seven_region)).
          out ! (assignment_lines ''x'' (split_lines seven_region) ! m) =
              (if m < length (replacements_for ''x'')
               then takeWhile is_space (split_lines seven_region ! (assignment_lines ''x'' (split_lines seven_region) ! m)) @ replacements_for ''x'' ! m @
                    drop (length ''x'') (skip_ws (split_lines seven_region ! (assignment_lines ''x'' (split_lines seven_region) ! m)))
               else split_lines seven_region ! (assignment_lines ''x'' (split_lines seven_region) ! m))"
    by blast
  have "(6::nat) < length (assignment_lines ''x'' (split_lines seven_region))"
    unfolding s by simp
  from o(3) [rule_format, OF this]
  have "out ! (assignment_lines ''x'' (split_lines seven_region) ! 6) = ''  x = 7''"
    unfolding s using n by simp
  with o h l e show ?thesis by blast
qed

section \<open>The trailing reference\<close>

text \<open>
  Claim C3 against the code: the last loop of \<^verbatim>\<open>fix_function_variable\<close> visits every
  line of the region, from the last down to the first, not only the lines below
  the last assignment site. In the region below the sites are lines 1, 2 and 4; the
  loop over the assignments leaves the bare reference in line 3 as it is, no line
  below line 4 is a standalone reference, and the last loop then rewrites line 3,
  above the last site, to the name chosen for the final assignment.
\<close>

theorem trailing_step_above_last_site:
  "assignment_lines ''x'' above_lines = [1, 2, 4] \<and>
   rewrite_loop ''x'' (replacements_for ''x'') 0 ''x'' [1, 2, 4] above_lines =
     [''def f do'', ''  initial_x = 1'', ''  base_x = 2'', ''  x'', ''  enhanced_x = 3'',
      ''  g(x)'', ''end''] \<and>
   fix_function_lines above_lines ''x'' (replacements_for ''x'') =
     Inr [''def f do'', ''  initial_x = 1'', ''  base_x = 2'', ''  enhanced_x'',
          ''  enhanced_x = 3'', ''  g(x)'', ''end''] \<and>
   fix_function_variable (join_lines above_lines) ''x'' (replacements_for ''x'') =
     Inr (join_lines [''def f do'', ''  initial_x = 1'', ''  base_x = 2'', ''  enhanced_x'',
          ''  enhanced_x = 3'', ''  g(x)'', ''end''])"
  unfolding above_lines_def by code_simp

end
